theory Spec2Isabelle
  imports Complex_Main
begin

section \<open>Python values, errors and indexing\<close>

text \<open>
  The exceptions the modelled code can raise. A function that can raise returns
  \<open>error + 'a\<close>, with \<open>Inl\<close> for the exception.
\<close>

datatype error = IndexError | NameError | ValueError | UnboundLocalError | AttributeError

text \<open>
  Subscription \<^verbatim>\<open>xs[i]\<close> of a Python list: an index below zero counts from the end,
  and an index outside \<open>-len .. len-1\<close> raises \<^verbatim>\<open>IndexError\<close>.
\<close>

definition py_index :: "'a list \<Rightarrow> int \<Rightarrow> error + 'a" where
  "py_index xs i =
     (if 0 \<le> i \<and> i < int (length xs) then Inr (xs ! nat i)
      else if i < 0 \<and> - int (length xs) \<le> i then Inr (xs ! nat (int (length xs) + i))
      else Inl IndexError)"

section \<open>Data model\<close>

text \<open>
  Class \<^verbatim>\<open>Event\<close>: the attributes \<^verbatim>\<open>midi\<close>, \<^verbatim>\<open>time\<close> and \<^verbatim>\<open>beat\<close>.
  \<^verbatim>\<open>midi\<close> is \<^verbatim>\<open>None\<close> or a payload of the song; \<^verbatim>\<open>beat\<close> is \<^verbatim>\<open>None\<close> or the
  tuple \<^verbatim>\<open>(measnum, beat, num, den)\<close>. \<^verbatim>\<open>time\<close> only ever holds \<^verbatim>\<open>None\<close> (the
  initial value) or \<^verbatim>\<open>True\<close>, and the code only tests its truth value, so it is a
  \<open>bool\<close> with \<^verbatim>\<open>None\<close> as \<open>False\<close>.
\<close>

record 'm event =
  midi :: "'m option"
  time :: bool
  beat :: "(int \<times> int \<times> int \<times> int) option"

text \<open>\<^verbatim>\<open>Event()\<close>: the constructor sets all three attributes to \<^verbatim>\<open>None\<close>.\<close>

definition Event :: "'m event" where
  "Event = \<lparr>midi = None, time = False, beat = None\<rparr>"

text \<open>
  Modelled from the spec: the class \<^verbatim>\<open>Song\<close> of module \<^verbatim>\<open>midisong\<close>, which is not
  part of the sources. Section 6 of the specification gives the three attributes the
  player reads: \<^verbatim>\<open>music\<close>, a sequence of (timestamp, payload) pairs, \<^verbatim>\<open>length\<close>,
  an integer, and \<^verbatim>\<open>beats\<close>, a sequence of
  (timestamp, measure, beat, numerator, denominator) tuples.
\<close>

record 'm song =
  music :: "(int \<times> 'm) list"
  song_length :: int
  beats :: "(int \<times> int \<times> int \<times> int \<times> int) list"

text \<open>
  Class \<^verbatim>\<open>Player\<close>: the attributes \<^verbatim>\<open>_song\<close>, \<^verbatim>\<open>_events\<close>, \<^verbatim>\<open>_position\<close> and
  \<^verbatim>\<open>_tempo_factor\<close>. The tempo factor is a float that is stored and returned
  verbatim; no arithmetic is performed on it.
\<close>

record 'm player =
  song :: "'m song option"
  events :: "(int \<times> 'm event) list"
  position :: int
  tempo_factor :: real

text \<open>\<^verbatim>\<open>Player.__init__\<close>\<close>

definition init_player :: "'m player" where
  "init_player = \<lparr>song = None, events = [], position = 0, tempo_factor = 1\<rparr>"

text \<open>
  The calls a player makes to its overridable hooks, in the order made. The base
  class implements \<^verbatim>\<open>midi_event\<close>, \<^verbatim>\<open>time_event\<close>, \<^verbatim>\<open>beat_event\<close> and \<^verbatim>\<open>stop\<close>
  as empty methods, and \<^verbatim>\<open>finish\<close> as a call of \<^verbatim>\<open>stop\<close>.
\<close>

datatype 'm call =
    Midi_event 'm
  | Time_event int
  | Beat_event int int int int
  | Finish
  | Stop

section \<open>The cursor: times, tempo factor, position\<close>

text \<open>\<^verbatim>\<open>Player.total_time\<close>: \<^verbatim>\<open>self._events[-1][0]\<close> if the list is non-empty, else 0.\<close>

definition total_time :: "'m player \<Rightarrow> error + int" where
  "total_time p =
     (if events p \<noteq> [] then map_sum id fst (py_index (events p) (- 1)) else Inr 0)"

text \<open>
  \<^verbatim>\<open>Player.current_time\<close>:
  \<^verbatim>\<open>pos = self._position - 1; return self._events[pos][0] if pos >= 0 else 0\<close>.
\<close>

definition current_time :: "'m player \<Rightarrow> error + int" where
  "current_time p =
     (let pos = position p - 1
      in if pos \<ge> 0 then map_sum id fst (py_index (events p) pos) else Inr 0)"

definition set_tempo_factor :: "'m player \<Rightarrow> real \<Rightarrow> 'm player" where
  "set_tempo_factor p factor = p\<lparr>tempo_factor := factor\<rparr>"

text \<open>
  \<^verbatim>\<open>Player.set_position(position, time_offset=0)\<close>: the base class stores the
  position and does nothing with the time offset.
\<close>

definition set_position :: "'m player \<Rightarrow> int \<Rightarrow> int \<Rightarrow> 'm player" where
  "set_position p pos time_offset = p\<lparr>position := pos\<rparr>"

section \<open>Seeking by time\<close>

text \<open>
  The loop of \<^verbatim>\<open>Player.seek\<close>:
  \<^verbatim>\<open>
  while pos < end:
      mid = (pos + end) // 2
      if time > self._events[mid][0]:
          pos = mid + 1
      else:
          end = mid
  \<close>
  It returns the final \<^verbatim>\<open>pos\<close>. Both bounds start in \<open>0 .. len\<close> and stay there, so
  they are natural numbers; the subscription is still the checked one.
\<close>

function bisect :: "(int \<times> 'm event) list \<Rightarrow> int \<Rightarrow> nat \<Rightarrow> nat \<Rightarrow> error + nat" where
  "bisect evs t pos end =
     (if pos < end then
        (let mid = (pos + end) div 2
         in case py_index evs (int mid) of
              Inl err \<Rightarrow> Inl err
            | Inr ev \<Rightarrow>
                if t > fst ev then bisect evs t (mid + 1) end
                else bisect evs t pos mid)
      else Inr pos)"
  by pat_completeness auto
termination
  by (relation "measure (\<lambda>(evs, t, pos, end). end - pos)") auto

declare bisect.simps [simp del]

text \<open>
  \<^verbatim>\<open>Player.seek(time)\<close>. The result carries the two arguments handed to
  \<^verbatim>\<open>set_position\<close>, the position and the time offset, besides the new state: the
  base class's \<^verbatim>\<open>set_position\<close> drops the offset.
  \<^verbatim>\<open>
  pos = 0
  offset = 0
  if time:
      end = len(self._events)
      <the loop>
      offset = self._events[pos][0] - time
  self.set_position(pos, offset)
  \<close>
\<close>

definition seek :: "'m player \<Rightarrow> int \<Rightarrow> error + ((int \<times> int) \<times> 'm player)" where
  "seek p t =
     (if t \<noteq> 0 then
        (case bisect (events p) t 0 (length (events p)) of
           Inl err \<Rightarrow> Inl err
         | Inr pos \<Rightarrow>
             (case py_index (events p) (int pos) of
                Inl err \<Rightarrow> Inl err
              | Inr ev \<Rightarrow>
                  Inr ((int pos, fst ev - t), set_position p (int pos) (fst ev - t))))
      else Inr ((0, 0), set_position p 0 0))"


section \<open>Seeking by measure and beat\<close>

text \<open>
  The loop of \<^verbatim>\<open>Player.seek_measure\<close> over \<^verbatim>\<open>enumerate(self._events)\<close>, with the
  index \<open>i\<close> counted along. The local \<^verbatim>\<open>position\<close> is unbound (\<open>None\<close>) until its
  first assignment. A \<^verbatim>\<open>break\<close> returns the two locals as they are.
  \<^verbatim>\<open>
  for i, (t, e) in enumerate(self._events):
      if e.beat:
          if e.beat[0] == measnum:
              position = i
              result = True
              if e.beat[1] >= beat:
                  break
          if e.beat[0] > measnum:
              break
  \<close>
  A beat tuple has four components, so \<^verbatim>\<open>if e.beat\<close> holds exactly when the
  attribute is not \<^verbatim>\<open>None\<close>.
\<close>

fun seek_measure_scan ::
  "(int \<times> 'm event) list \<Rightarrow> nat \<Rightarrow> int \<Rightarrow> int \<Rightarrow> int option \<Rightarrow> bool \<Rightarrow> int option \<times> bool"
where
  "seek_measure_scan [] i measnum bt pos result = (pos, result)"
| "seek_measure_scan ((t, e) # rest) i measnum bt pos result =
     (case beat e of
        None \<Rightarrow> seek_measure_scan rest (Suc i) measnum bt pos result
      | Some (m, b, num, den) \<Rightarrow>
          if m = measnum then
            (if b \<ge> bt then (Some (int i), True)
             else if m > measnum then (Some (int i), True)
             else seek_measure_scan rest (Suc i) measnum bt (Some (int i)) True)
          else if m > measnum then (pos, result)
          else seek_measure_scan rest (Suc i) measnum bt pos result)"

text \<open>
  \<^verbatim>\<open>Player.seek_measure(measnum, beat=1)\<close>: returns the boolean and the new state.
  \<^verbatim>\<open>
  result = False
  <the loop>
  if result:
      self.set_position(position)
      return True
  return False
  \<close>
\<close>

definition seek_measure :: "'m player \<Rightarrow> int \<Rightarrow> int \<Rightarrow> error + (bool \<times> 'm player)" where
  "seek_measure p measnum bt =
     (case seek_measure_scan (events p) 0 measnum bt None False of
        (pos, result) \<Rightarrow>
          if result then
            (case pos of
               None \<Rightarrow> Inl UnboundLocalError
             | Some i \<Rightarrow> Inr (True, set_position p i 0))
          else Inr (False, p))"

section \<open>Stepping\<close>

text \<open>
  Name resolution in the body of \<^verbatim>\<open>Player.handle_event(self, time, event)\<close>: the
  locals are the three parameters, the globals are the names bound at the top level
  of the module (two imports, two classes, one function). Neither they nor Python's
  builtins bind a name \<^verbatim>\<open>e\<close>.
\<close>

datatype 'm pyval = VSelf | VInt int | VEvent "'m event" | VModule_level

definition handle_event_scope :: "int \<Rightarrow> 'm event \<Rightarrow> (string \<times> 'm pyval) list" where
  "handle_event_scope t event =
     [(''self'', VSelf), (''time'', VInt t), (''event'', VEvent event),
      (''collections'', VModule_level), (''midisong'', VModule_level),
      (''Player'', VModule_level), (''Event'', VModule_level),
      (''make_event_list'', VModule_level)]"

definition lookup_name :: "(string \<times> 'm pyval) list \<Rightarrow> string \<Rightarrow> error + 'm pyval" where
  "lookup_name scope name =
     (case map_of scope name of None \<Rightarrow> Inl NameError | Some v \<Rightarrow> Inr v)"

text \<open>
  \<^verbatim>\<open>Player.handle_event(self, time, event)\<close>; the result is the list of hook calls.
  \<^verbatim>\<open>
  if e.midi:
      self.midi_event(e.midi)
  if e.time:
      self.time_event(time)
  if e.beat:
      self.beat_event(*e.beat)
  \<close>
  The body reads the name \<^verbatim>\<open>e\<close>, not the parameter \<^verbatim>\<open>event\<close>. The truth value of a
  payload depends on the payload's type, which the song defines: it is the
  parameter \<open>truthy\<close>.
\<close>

definition handle_event :: "('m \<Rightarrow> bool) \<Rightarrow> int \<Rightarrow> 'm event \<Rightarrow> error + 'm call list" where
  "handle_event truthy t event =
     (case lookup_name (handle_event_scope t event) ''e'' of
        Inl err \<Rightarrow> Inl err
      | Inr v \<Rightarrow>
          (case v of
             VEvent e \<Rightarrow>
               Inr ((case midi e of
                       Some m \<Rightarrow> if truthy m then [Midi_event m] else []
                     | None \<Rightarrow> [])
                    @ (if time e then [Time_event t] else [])
                    @ (case beat e of
                         Some (measnum, b, num, den) \<Rightarrow> [Beat_event measnum b num den]
                       | None \<Rightarrow> []))
           | _ \<Rightarrow> Inl AttributeError))"

text \<open>
  \<^verbatim>\<open>Player.next_event\<close>: returns the time before the next call, the new state and
  the hook calls made.
  \<^verbatim>\<open>
  if self._events and self._position < len(self._events):
      time, event = self._events[self._position]
      self.handle_event(time, event)
      self._position += 1
      if self._position < len(self._events):
          return self._events[self._position][0] - time
      self.finish()
  return 0
  \<close>
\<close>

definition next_event ::
  "('m \<Rightarrow> bool) \<Rightarrow> 'm player \<Rightarrow> error + (int \<times> 'm player \<times> 'm call list)"
where
  "next_event truthy p =
     (if events p \<noteq> [] \<and> position p < int (length (events p)) then
        (case py_index (events p) (position p) of
           Inl err \<Rightarrow> Inl err
         | Inr (t, event) \<Rightarrow>
             (case handle_event truthy t event of
                Inl err \<Rightarrow> Inl err
              | Inr calls \<Rightarrow>
                  (let p' = p\<lparr>position := position p + 1\<rparr>
                   in if position p' < int (length (events p')) then
                        (case py_index (events p') (position p') of
                           Inl err \<Rightarrow> Inl err
                         | Inr ev' \<Rightarrow> Inr (fst ev' - t, p', calls))
                      else Inr (0, p', calls @ [Finish, Stop]))))
      else Inr (0, p, []))"

section \<open>Building the event list\<close>

text \<open>
  The builtin \<^verbatim>\<open>range(start, stop, step)\<close>: for a positive step the values
  \<open>start + k * step\<close> that are below \<open>stop\<close>, for a negative step those that are above
  \<open>stop\<close>, for \<open>k = 0, 1, ...\<close>; a step of zero raises \<^verbatim>\<open>ValueError\<close>.
\<close>

definition py_range :: "int \<Rightarrow> int \<Rightarrow> int \<Rightarrow> error + int list" where
  "py_range start stop step =
     (if step = 0 then Inl ValueError
      else if step > 0 then
        Inr (map (\<lambda>k. start + int k * step) [0..<nat ((stop - start + step - 1) div step)])
      else
        Inr (map (\<lambda>k. start + int k * step) [0..<nat ((start - stop - step - 1) div (- step))]))"

text \<open>
  The dictionary \<^verbatim>\<open>d = collections.defaultdict(Event)\<close> is a list of (key, value)
  pairs with one pair per key, in the order of insertion. \<^verbatim>\<open>d[k].attr = v\<close> looks
  \<open>k\<close> up, which inserts \<^verbatim>\<open>Event()\<close> under a key that is missing, and then sets the
  attribute of the value found: \<open>dict_modify d k f\<close>, with \<open>f\<close> the assignment.
\<close>

fun dict_modify ::
  "(int \<times> 'm event) list \<Rightarrow> int \<Rightarrow> ('m event \<Rightarrow> 'm event) \<Rightarrow> (int \<times> 'm event) list"
where
  "dict_modify [] k f = [(k, f Event)]"
| "dict_modify ((k', e) # d) k f =
     (if k' = k then (k', f e) # d else (k', e) # dict_modify d k f)"

text \<open>The value of \<^verbatim>\<open>d[k]\<close>: the default \<^verbatim>\<open>Event()\<close> for a key that is missing.\<close>

definition dict_get :: "(int \<times> 'm event) list \<Rightarrow> int \<Rightarrow> 'm event" where
  "dict_get d k = (case map_of d k of Some e \<Rightarrow> e | None \<Rightarrow> Event)"

text \<open>\<^verbatim>\<open>for t, evs in song.music: d[t].midi = evs\<close>\<close>

definition add_music :: "(int \<times> 'm) list \<Rightarrow> (int \<times> 'm event) list \<Rightarrow> (int \<times> 'm event) list" where
  "add_music ms d = fold (\<lambda>(t, evs) d. dict_modify d t (\<lambda>e. e\<lparr>midi := Some evs\<rparr>)) ms d"

text \<open>\<^verbatim>\<open>for t in <range>: d[t].time = True\<close>\<close>

definition add_times :: "int list \<Rightarrow> (int \<times> 'm event) list \<Rightarrow> (int \<times> 'm event) list" where
  "add_times ts d = fold (\<lambda>t d. dict_modify d t (\<lambda>e. e\<lparr>time := True\<rparr>)) ts d"

text \<open>\<^verbatim>\<open>for i in song.beats: d[i[0]].beat = i[1:]\<close>\<close>

definition add_beats ::
  "(int \<times> int \<times> int \<times> int \<times> int) list \<Rightarrow> (int \<times> 'm event) list \<Rightarrow> (int \<times> 'm event) list"
where
  "add_beats bs d =
     fold (\<lambda>(t, measnum, b, num, den) d.
             dict_modify d t (\<lambda>e. e\<lparr>beat := Some (measnum, b, num, den)\<rparr>)) bs d"

text \<open>
  \<^verbatim>\<open>make_event_list(song, time=None, beat=None)\<close>. The argument \<^verbatim>\<open>time\<close> is
  \<^verbatim>\<open>None\<close> or an integer and is tested for truth, so neither \<^verbatim>\<open>None\<close> nor 0 gives
  time events; \<^verbatim>\<open>beat\<close> is tested for truth and is a \<open>bool\<close>.
  \<^verbatim>\<open>
  d = collections.defaultdict(Event)
  for t, evs in song.music:
      d[t].midi = evs
  if time:
      for t in range(0, song.length+1, time):
          d[t].time = True
  if beat:
      for i in song.beats:
          d[i[0]].beat = i[1:]
  return [(t, d[t]) for t in sorted(d)]
  \<close>
\<close>

definition make_event_list ::
  "'m song \<Rightarrow> int option \<Rightarrow> bool \<Rightarrow> error + (int \<times> 'm event) list"
where
  "make_event_list sg tm bt =
     (let d1 = add_music (music sg) []
      in case (case tm of
                 None \<Rightarrow> Inr d1
               | Some step \<Rightarrow>
                   if step \<noteq> 0 then
                     (case py_range 0 (song_length sg + 1) step of
                        Inl err \<Rightarrow> Inl err
                      | Inr ts \<Rightarrow> Inr (add_times ts d1))
                   else Inr d1) of
           Inl err \<Rightarrow> Inl err
         | Inr d2 \<Rightarrow>
             (let d3 = (if bt then add_beats (beats sg) d2 else d2)
              in Inr (map (\<lambda>t. (t, dict_get d3 t)) (sort (map fst d3)))))"

text \<open>\<^verbatim>\<open>Player.set_song(song, time=1000, beat=True)\<close>\<close>

definition set_song :: "'m player \<Rightarrow> 'm song \<Rightarrow> int option \<Rightarrow> bool \<Rightarrow> error + 'm player" where
  "set_song p sg tm bt =
     (case make_event_list sg tm bt of
        Inl err \<Rightarrow> Inl err
      | Inr evs \<Rightarrow> Inr (p\<lparr>song := Some sg, events := evs\<rparr>))"

section \<open>Properties of timelines\<close>

text \<open>A timeline is strictly increasing by timestamp.\<close>

definition strictly_increasing :: "(int \<times> 'm event) list \<Rightarrow> bool" where
  "strictly_increasing evs = sorted_wrt (<) (map fst evs)"

text \<open>The timeline has an entry at timestamp \<open>t\<close> whose \<^verbatim>\<open>time\<close> attribute is true.\<close>

definition has_tick_at :: "(int \<times> 'm event) list \<Rightarrow> int \<Rightarrow> bool" where
  "has_tick_at evs t = list_ex (\<lambda>(ts, e). ts = t \<and> time e) evs"

text \<open>
  The time events \<^verbatim>\<open>make_event_list\<close> is to generate, read off the specification
  and the docstring: for a positive interval, the multiples of the interval from 0
  up to the length of the song; for a negative one, the values of
  \<^verbatim>\<open>range(0, length + 1, interval)\<close>, the multiples from 0 down to above
  \<open>length + 1\<close>; none without an interval or with the interval 0.
\<close>

definition tick_time :: "int \<Rightarrow> int option \<Rightarrow> int \<Rightarrow> bool" where
  "tick_time len tm t =
     (case tm of
        None \<Rightarrow> False
      | Some step \<Rightarrow>
          (0 < step \<and> 0 \<le> t \<and> t \<le> len \<and> step dvd t)
          \<or> (step < 0 \<and> len + 1 < t \<and> t \<le> 0 \<and> step dvd t))"

text \<open>The beat descriptors of a song as (timestamp, marker) pairs.\<close>

definition beat_markers ::
  "(int \<times> int \<times> int \<times> int \<times> int) list \<Rightarrow> (int \<times> (int \<times> int \<times> int \<times> int)) list"
where
  "beat_markers bs = map (\<lambda>(t, measnum, b, num, den). (t, (measnum, b, num, den))) bs"

section \<open>The musical seek, as the specification words it\<close>

text \<open>The measure number of the beat marker of a bundle, if it has one.\<close>

definition marker_measure :: "'m event \<Rightarrow> int option" where
  "marker_measure e = map_option fst (beat e)"

text \<open>
  The scan stops at a bundle whose marker's measure exceeds the requested measure, or
  whose marker is in the requested measure with a beat at or past the requested one.
\<close>

definition stops_scan :: "int \<Rightarrow> int \<Rightarrow> 'm event \<Rightarrow> bool" where
  "stops_scan measnum bt e =
     (case beat e of
        None \<Rightarrow> False
      | Some (m, b, num, den) \<Rightarrow> m > measnum \<or> (m = measnum \<and> b \<ge> bt))"

text \<open>The entries the scan visits: those up to and including the first one it stops at.\<close>

definition scanned :: "int \<Rightarrow> int \<Rightarrow> (int \<times> 'm event) list \<Rightarrow> (int \<times> 'm event) list" where
  "scanned measnum bt evs =
     take (Suc (length (takeWhile (\<lambda>(t, e). \<not> stops_scan measnum bt e) evs))) evs"

text \<open>
  The tracked index: the last index among the visited entries whose marker's
  measure equals the requested measure, if there is one.
\<close>

definition tracked_index :: "int \<Rightarrow> int \<Rightarrow> (int \<times> 'm event) list \<Rightarrow> nat option" where
  "tracked_index measnum bt evs =
     (let hits = filter (\<lambda>(i, t, e). marker_measure e = Some measnum)
                   (enumerate 0 (scanned measnum bt evs))
      in if hits = [] then None else Some (fst (last hits)))"

section \<open>Example data\<close>

text \<open>A timeline with the timestamps 0, 50 and 100, and a cursor over it.\<close>

definition ex_events :: "(int \<times> string event) list" where
  "ex_events =
     [(0, \<lparr>midi = Some ''A'', time = True, beat = Some (1, 1, 4, 4)\<rparr>),
      (50, \<lparr>midi = None, time = True, beat = None\<rparr>),
      (100, \<lparr>midi = Some ''B'', time = True, beat = None\<rparr>)]"

definition ex_player :: "int \<Rightarrow> string player" where
  "ex_player pos = \<lparr>song = None, events = ex_events, position = pos, tempo_factor = 1\<rparr>"

text \<open>A payload is true when it is a non-empty string.\<close>

definition ex_truthy :: "string \<Rightarrow> bool" where
  "ex_truthy s = (s \<noteq> [])"

text \<open>The song of the specification's merge example.\<close>

definition ex_song :: "string song" where
  "ex_song = \<lparr>music = [(0, ''A''), (100, ''B'')], song_length = 100, beats = [(0, 1, 1, 4, 4)]\<rparr>"

text \<open>The timeline of that song for the interval 30, with beats.\<close>

definition ex_events_30 :: "(int \<times> string event) list" where
  "ex_events_30 =
     [(0, \<lparr>midi = Some ''A'', time = True, beat = Some (1, 1, 4, 4)\<rparr>),
      (30, \<lparr>midi = None, time = True, beat = None\<rparr>),
      (60, \<lparr>midi = None, time = True, beat = None\<rparr>),
      (90, \<lparr>midi = None, time = True, beat = None\<rparr>),
      (100, \<lparr>midi = Some ''B'', time = False, beat = None\<rparr>)]"

text \<open>
  A timeline with the beats of the specification's example at 0, 480 and 960, and a
  time event without a beat at 240; a cursor over it.
\<close>

definition ex_beat_events :: "(int \<times> string event) list" where
  "ex_beat_events =
     [(0, \<lparr>midi = None, time = True, beat = Some (1, 1, 4, 4)\<rparr>),
      (240, \<lparr>midi = None, time = True, beat = None\<rparr>),
      (480, \<lparr>midi = None, time = True, beat = Some (1, 2, 4, 4)\<rparr>),
      (960, \<lparr>midi = None, time = False, beat = Some (2, 1, 4, 4)\<rparr>)]"

definition ex_beat_player :: "int \<Rightarrow> string player" where
  "ex_beat_player pos =
     \<lparr>song = None, events = ex_beat_events, position = pos, tempo_factor = 1\<rparr>"

section \<open>Stepping at the end of the timeline\<close>

text \<open>
  C7: for a cursor whose position is at or past the end of the timeline, and for any
  cursor over an empty timeline, \<open>next_event\<close> returns 0, leaves the whole state
  (song, timeline, position, tempo factor) as it is and calls no hook.
\<close>

theorem next_event_finished_noop:
  assumes "events p = [] \<or> int (length (events p)) \<le> position p"
  shows "next_event truthy p = Inr (0, p, [])"
  using assms by (auto simp: next_event_def)

theorem next_event_finished_noop_witness:
  "(events (ex_player 3) = [] \<or> int (length (events (ex_player 3))) \<le> position (ex_player 3))
   \<and> next_event ex_truthy (ex_player 3) = Inr (0, ex_player 3, [])
   \<and> next_event ex_truthy (init_player :: string player) = Inr (0, init_player, [])"
proof -
  have h: "events (ex_player 3) = [] \<or> int (length (events (ex_player 3))) \<le> position (ex_player 3)"
    by (simp add: ex_player_def ex_events_def)
  have e: "events (init_player :: string player) = []
           \<or> int (length (events (init_player :: string player))) \<le> position (init_player :: string player)"
    by (simp add: init_player_def)
  show ?thesis
    using h next_event_finished_noop [OF h, of ex_truthy]
      next_event_finished_noop [OF e, of ex_truthy]
    by simp
qed

section \<open>Current time and total time of a finished cursor\<close>

lemma py_index_last:
  "xs \<noteq> [] \<Longrightarrow> py_index xs (int (length xs) - 1) = Inr (last xs)"
  by (cases xs rule: rev_cases) (auto simp: py_index_def nth_append)

lemma py_index_minus_one:
  "xs \<noteq> [] \<Longrightarrow> py_index xs (- 1) = Inr (last xs)"
  by (cases xs rule: rev_cases) (auto simp: py_index_def nth_append)

text \<open>
  C10: for a cursor over a non-empty timeline whose position equals the length of the
  timeline, \<open>current_time\<close> and \<open>total_time\<close> return the same value, the timestamp
  of the last entry.
\<close>

theorem current_time_finished_eq_total_time:
  assumes "events p \<noteq> []" and "position p = int (length (events p))"
  shows "current_time p = total_time p \<and> total_time p = Inr (fst (last (events p)))"
  using assms
  by (simp add: current_time_def total_time_def py_index_last py_index_minus_one)

theorem current_time_finished_eq_total_time_witness:
  "events (ex_player 3) \<noteq> [] \<and> position (ex_player 3) = int (length (events (ex_player 3)))
   \<and> current_time (ex_player 3) = Inr 100 \<and> total_time (ex_player 3) = Inr 100"
proof -
  have a: "events (ex_player 3) \<noteq> []"
    by (simp add: ex_player_def ex_events_def)
  have b: "position (ex_player 3) = int (length (events (ex_player 3)))"
    by (simp add: ex_player_def ex_events_def)
  show ?thesis
    using a b current_time_finished_eq_total_time [OF a b]
    by (simp add: ex_player_def ex_events_def)
qed

section \<open>The binary search of seek\<close>

text \<open>
  The loop invariant of the binary search over timestamps in ascending order: all
  entries before \<open>pos\<close> are below the target, all entries from \<open>end\<close> on are at or
  above it. The search then returns an index with the same two properties, and no
  subscription in the loop is out of range.
\<close>

lemma bisect_invariant:
  assumes "sorted (map fst evs)" "pos \<le> end" "end \<le> length evs"
    "\<forall>j<pos. fst (evs ! j) < t"
    "\<forall>j. end \<le> j \<and> j < length evs \<longrightarrow> t \<le> fst (evs ! j)"
  shows "\<exists>r. bisect evs t pos end = Inr r \<and> pos \<le> r \<and> r \<le> end
      \<and> (\<forall>j<r. fst (evs ! j) < t)
      \<and> (\<forall>j. r \<le> j \<and> j < length evs \<longrightarrow> t \<le> fst (evs ! j))"
  using assms
proof (induction evs t pos "end" rule: bisect.induct)
  case (1 evs t pos "end")
  show ?case
  proof (cases "pos < end")
    case False
    with "1.prems" show ?thesis by (simp add: bisect.simps)
  next
    case True
    define mid where "mid = (pos + end) div 2"
    have mid: "pos \<le> mid" "mid < end" using True by (auto simp: mid_def)
    then have len: "mid < length evs" using "1.prems" by simp
    have idx: "py_index evs (int mid) = Inr (evs ! mid)"
      using len by (simp add: py_index_def)
    have mono: "\<And>i j. i \<le> j \<Longrightarrow> j < length evs \<Longrightarrow> fst (evs ! i) \<le> fst (evs ! j)"
      using sorted_nth_mono [OF "1.prems"(1)] by simp
    show ?thesis
    proof (cases "t > fst (evs ! mid)")
      case gt: True
      have lo: "\<forall>j<mid + 1. fst (evs ! j) < t"
      proof (intro allI impI)
        fix j assume "j < mid + 1"
        then have "fst (evs ! j) \<le> fst (evs ! mid)" using mono [of j mid] len by simp
        with gt show "fst (evs ! j) < t" by simp
      qed
      have "\<exists>r. bisect evs t (mid + 1) end = Inr r \<and> mid + 1 \<le> r \<and> r \<le> end
          \<and> (\<forall>j<r. fst (evs ! j) < t)
          \<and> (\<forall>j. r \<le> j \<and> j < length evs \<longrightarrow> t \<le> fst (evs ! j))"
        using "1.IH"(1) [OF True mid_def idx gt "1.prems"(1) _ "1.prems"(3) lo "1.prems"(5)] mid
        by simp
      moreover have "bisect evs t pos end = bisect evs t (mid + 1) end"
        using True idx gt by (subst bisect.simps) (simp add: mid_def Let_def)
      ultimately show ?thesis using mid by auto
    next
      case le: False
      have hi: "\<forall>j. mid \<le> j \<and> j < length evs \<longrightarrow> t \<le> fst (evs ! j)"
      proof (intro allI impI)
        fix j assume "mid \<le> j \<and> j < length evs"
        then have "fst (evs ! mid) \<le> fst (evs ! j)" using mono [of mid j] by simp
        with le show "t \<le> fst (evs ! j)" by simp
      qed
      have "\<exists>r. bisect evs t pos mid = Inr r \<and> pos \<le> r \<and> r \<le> mid
          \<and> (\<forall>j<r. fst (evs ! j) < t)
          \<and> (\<forall>j. r \<le> j \<and> j < length evs \<longrightarrow> t \<le> fst (evs ! j))"
        using "1.IH"(2) [OF True mid_def idx le "1.prems"(1) mid(1) _ "1.prems"(4) hi] len
        by simp
      moreover have "bisect evs t pos end = bisect evs t pos mid"
        using True idx le by (subst bisect.simps) (simp add: mid_def Let_def)
      ultimately show ?thesis using mid by auto
    qed
  qed
qed

text \<open>
  When no entry before \<open>end\<close> is below the target, every comparison fails and the
  search returns \<open>pos\<close>, whatever the order of the entries.
\<close>

lemma bisect_all_at_or_above:
  assumes "pos \<le> end" "end \<le> length evs" "\<forall>j<end. t \<le> fst (evs ! j)"
  shows "bisect evs t pos end = Inr pos"
  using assms
proof (induction evs t pos "end" rule: bisect.induct)
  case (1 evs t pos "end")
  show ?case
  proof (cases "pos < end")
    case False
    then show ?thesis by (simp add: bisect.simps)
  next
    case True
    define mid where "mid = (pos + end) div 2"
    have mid: "pos \<le> mid" "mid < end" using True by (auto simp: mid_def)
    then have len: "mid < length evs" using "1.prems" by simp
    have idx: "py_index evs (int mid) = Inr (evs ! mid)"
      using len by (simp add: py_index_def)
    have le: "\<not> t > fst (evs ! mid)" using "1.prems"(3) mid by auto
    have "bisect evs t pos mid = Inr pos"
      using "1.IH"(2) [OF True mid_def idx le mid(1)] len "1.prems"(3) mid by simp
    moreover have "bisect evs t pos end = bisect evs t pos mid"
      using True idx le by (subst bisect.simps) (simp add: mid_def Let_def)
    ultimately show ?thesis by simp
  qed
qed

lemma bisect_whole_list:
  assumes "sorted (map fst evs)"
  shows "\<exists>r. bisect evs t 0 (length evs) = Inr r \<and> r \<le> length evs
      \<and> (\<forall>j<r. fst (evs ! j) < t)
      \<and> (\<forall>j. r \<le> j \<and> j < length evs \<longrightarrow> t \<le> fst (evs ! j))"
  using bisect_invariant [OF assms, of 0 "length evs" t] by auto

lemma strictly_increasing_sorted:
  "strictly_increasing evs \<Longrightarrow> sorted (map fst evs)"
  by (simp add: strictly_increasing_def strict_sorted_iff)

text \<open>
  What seek does past the last timestamp of a timeline, and on an empty list, for
  a time that is not zero: the search returns the length of the list, and the
  subscription that computes the offset raises \<^verbatim>\<open>IndexError\<close>.
\<close>

lemma seek_past_end_raises:
  assumes "strictly_increasing (events p)" "t \<noteq> 0"
    "events p = [] \<or> fst (last (events p)) < t"
  shows "seek p t = Inl IndexError"
proof -
  obtain r where r: "bisect (events p) t 0 (length (events p)) = Inr r"
    "r \<le> length (events p)"
    "\<forall>j. r \<le> j \<and> j < length (events p) \<longrightarrow> t \<le> fst (events p ! j)"
    using bisect_whole_list [OF strictly_increasing_sorted [OF assms(1)], of t] by blast
  have "r = length (events p)"
  proof (rule ccontr)
    assume "r \<noteq> length (events p)"
    then have ne: "events p \<noteq> []" and lt: "r \<le> length (events p) - 1"
      using r(2) by auto
    then have "t \<le> fst (events p ! (length (events p) - 1))"
      using r(3) by simp
    then have "t \<le> fst (last (events p))" using ne by (simp add: last_conv_nth)
    with assms(3) ne show False by simp
  qed
  with r(1) assms(2) show ?thesis
    by (simp add: seek_def py_index_def)
qed

section \<open>Seeking past the end of the timeline\<close>

text \<open>
  C1 (the code fails where the claim says it completes): on the timeline with the
  timestamps 0, 50, 100, \<open>seek 1000\<close> raises \<^verbatim>\<open>IndexError\<close> instead of setting the
  position to 3, and on the empty timeline \<open>seek 5\<close> raises \<^verbatim>\<open>IndexError\<close> as well.
\<close>

theorem seek_past_end_index_error:
  "seek (ex_player 0) 1000 = Inl IndexError
   \<and> seek (init_player :: string player) 5 = Inl IndexError"
  by (simp add: seek_def ex_player_def ex_events_def init_player_def bisect.simps py_index_def)

section \<open>Seeking to a negative time\<close>

text \<open>
  C4 as stated fails: on the timeline with the timestamps 0, 50, 100, \<open>seek (-10)\<close>
  reports the offset 10, and \<open>seek 0\<close> reports the offset 0.
\<close>

theorem seek_negative_counterexample:
  "seek (ex_player 2) (- 10) = Inr ((0, 10), ex_player 0)
   \<and> seek (ex_player 2) 0 = Inr ((0, 0), ex_player 0)
   \<and> seek (ex_player 2) (- 10) \<noteq> seek (ex_player 2) 0"
  by (simp add: seek_def ex_player_def ex_events_def bisect.simps py_index_def set_position_def)

text \<open>
  C4, amended: for a non-empty timeline whose timestamps are not negative and a
  negative time \<open>t\<close>, seek sets the position to 0, as \<open>seek 0\<close> does, and reports as
  offset the first timestamp minus \<open>t\<close>, which is above 0: the negative time is not
  replaced by 0.
\<close>

theorem seek_negative:
  assumes "events p \<noteq> []" and "\<forall>ev \<in> set (events p). 0 \<le> fst ev" and "t < 0"
  shows "seek p t = Inr ((0, fst (hd (events p)) - t), p\<lparr>position := 0\<rparr>)
     \<and> 0 < fst (hd (events p)) - t
     \<and> map_sum id snd (seek p t) = map_sum id snd (seek p 0)"
proof -
  have all: "\<forall>j<length (events p). t \<le> fst (events p ! j)"
    using assms(2,3) by (auto simp: all_set_conv_all_nth intro: order_trans less_imp_le)
  have b: "bisect (events p) t 0 (length (events p)) = Inr 0"
    using bisect_all_at_or_above [of 0 "length (events p)" "events p" t] all by simp
  have i: "py_index (events p) 0 = Inr (hd (events p))"
    using assms(1) by (simp add: py_index_def hd_conv_nth)
  have "0 \<le> fst (hd (events p))" using assms(1,2) by simp
  with assms(3) b i show ?thesis
    by (simp add: seek_def set_position_def)
qed

theorem seek_negative_witness:
  "events (ex_player 2) \<noteq> [] \<and> list_all (\<lambda>ev. 0 \<le> fst ev) (events (ex_player 2))
   \<and> (- 10 :: int) < 0
   \<and> seek (ex_player 2) (- 10) = Inr ((0, 10), ex_player 0)"
proof -
  have a: "events (ex_player 2) \<noteq> []"
    by (simp add: ex_player_def ex_events_def)
  have b: "\<forall>ev \<in> set (events (ex_player 2)). 0 \<le> fst ev"
    by (simp add: ex_player_def ex_events_def)
  have c: "(- 10 :: int) < 0" by simp
  show ?thesis
    using a b seek_negative [OF a b c]
    by (simp add: ex_player_def ex_events_def)
qed

section \<open>Seeking inside the timeline\<close>

text \<open>
  C5: for a non-empty timeline and a time \<open>t\<close> with \<open>0 < t\<close> that is at most the
  last timestamp, seek sets the position to the smallest index whose timestamp is at
  least \<open>t\<close> (the timestamp there is at least \<open>t\<close>, all timestamps before are
  below \<open>t\<close>) and reports as offset that timestamp minus \<open>t\<close>, which is not
  negative; \<open>seek 0\<close> gives position 0 and offset 0.
\<close>

theorem seek_lower_bound:
  "(strictly_increasing (events p) \<and> events p \<noteq> [] \<and> 0 < t \<and> t \<le> fst (last (events p)) \<longrightarrow>
     (\<exists>pos. seek p t = Inr ((int pos, fst (events p ! pos) - t), p\<lparr>position := int pos\<rparr>)
        \<and> pos < length (events p)
        \<and> t \<le> fst (events p ! pos)
        \<and> (\<forall>j<pos. fst (events p ! j) < t)
        \<and> 0 \<le> fst (events p ! pos) - t))
   \<and> seek p 0 = Inr ((0, 0), p\<lparr>position := 0\<rparr>)"
proof (intro conjI impI)
  show "seek p 0 = Inr ((0, 0), p\<lparr>position := 0\<rparr>)"
    by (simp add: seek_def set_position_def)
next
  assume h: "strictly_increasing (events p) \<and> events p \<noteq> [] \<and> 0 < t \<and> t \<le> fst (last (events p))"
  obtain r where r: "bisect (events p) t 0 (length (events p)) = Inr r"
    "r \<le> length (events p)" "\<forall>j<r. fst (events p ! j) < t"
    "\<forall>j. r \<le> j \<and> j < length (events p) \<longrightarrow> t \<le> fst (events p ! j)"
    using bisect_whole_list [OF strictly_increasing_sorted, of "events p" t] h by blast
  have lastn: "fst (last (events p)) = fst (events p ! (length (events p) - 1))"
    using h by (simp add: last_conv_nth)
  have "r \<noteq> length (events p)"
  proof
    assume "r = length (events p)"
    then have "fst (events p ! (length (events p) - 1)) < t"
      using r(3) h by simp
    with h lastn show False by simp
  qed
  with r(2) have lt: "r < length (events p)" by simp
  then have ge: "t \<le> fst (events p ! r)" using r(4) by simp
  have "py_index (events p) (int r) = Inr (events p ! r)"
    using lt by (simp add: py_index_def)
  with r(1) h have "seek p t = Inr ((int r, fst (events p ! r) - t), p\<lparr>position := int r\<rparr>)"
    by (simp add: seek_def set_position_def)
  with lt ge r(3)
  show "\<exists>pos. seek p t = Inr ((int pos, fst (events p ! pos) - t), p\<lparr>position := int pos\<rparr>)
        \<and> pos < length (events p)
        \<and> t \<le> fst (events p ! pos)
        \<and> (\<forall>j<pos. fst (events p ! j) < t)
        \<and> 0 \<le> fst (events p ! pos) - t"
    by (intro exI [of _ r]) simp
qed

theorem seek_lower_bound_witness:
  "strictly_increasing (events (ex_player 0)) \<and> events (ex_player 0) \<noteq> [] \<and> (0::int) < 30
   \<and> 30 \<le> fst (last (events (ex_player 0)))
   \<and> seek (ex_player 0) 30 = Inr ((1, 20), ex_player 1)
   \<and> seek (ex_player 2) 0 = Inr ((0, 0), ex_player 0)"
proof -
  have h: "strictly_increasing (events (ex_player 0)) \<and> events (ex_player 0) \<noteq> [] \<and> (0::int) < 30
      \<and> 30 \<le> fst (last (events (ex_player 0)))"
    by (simp add: ex_player_def ex_events_def strictly_increasing_def)
  have e: "seek (ex_player 0) 30 = Inr ((1, 20), ex_player 1)"
  proof -
    obtain pos where p: "seek (ex_player 0) 30
         = Inr ((int pos, fst (events (ex_player 0) ! pos) - 30), (ex_player 0)\<lparr>position := int pos\<rparr>)"
      "pos < length (events (ex_player 0))" "30 \<le> fst (events (ex_player 0) ! pos)"
      "\<forall>j<pos. fst (events (ex_player 0) ! j) < 30"
      using seek_lower_bound [of "ex_player 0" 30] h by blast
    have "pos < 3" using p(2) by (simp add: ex_player_def ex_events_def)
    then consider "pos = 0" | "pos = 1" | "pos = 2" by linarith
    then have "pos = 1"
    proof cases
      case 1
      with p(3) show ?thesis by (simp add: ex_player_def ex_events_def)
    next
      case 2
      then show ?thesis .
    next
      case 3
      with p(4) have "fst (events (ex_player 0) ! 1) < 30" by simp
      then show ?thesis by (simp add: ex_player_def ex_events_def)
    qed
    with p(1) show ?thesis by (simp add: ex_player_def ex_events_def)
  qed
  have z: "seek (ex_player 2) 0 = Inr ((0, 0), ex_player 0)"
    using seek_lower_bound [of "ex_player 2" 0] by (simp add: ex_player_def)
  from h e z show ?thesis by simp
qed

section \<open>Seeking and the prior state of the cursor\<close>





section \<open>Seeking by measure and beat: the scan\<close>

lemma scanned_Nil: "scanned measnum bt [] = []"
  by (simp add: scanned_def)

lemma scanned_Cons:
  "scanned measnum bt ((t, e) # rest) =
     (if stops_scan measnum bt e then [(t, e)] else (t, e) # scanned measnum bt rest)"
  by (simp add: scanned_def)

lemma set_scanned: "set (scanned measnum bt evs) \<subseteq> set evs"
  unfolding scanned_def by (rule set_take_subset)

text \<open>
  The loop against the wording: from index \<open>n\<close> on, with the locals \<open>pos\<close> and
  \<open>result\<close>, the loop ends with the last hit among the visited entries, or with the
  locals unchanged when there is no hit.
\<close>

lemma seek_measure_scan_hits:
  "seek_measure_scan evs n measnum bt pos result =
     (let hits = filter (\<lambda>(i, t, e). marker_measure e = Some measnum)
                   (enumerate n (scanned measnum bt evs))
      in if hits = [] then (pos, result) else (Some (int (fst (last hits))), True))"
proof (induction evs arbitrary: n pos result)
  case Nil
  show ?case by (simp add: scanned_Nil)
next
  case (Cons x evs)
  obtain t e where x: "x = (t, e)" by (cases x)
  show ?case
  proof (cases "beat e")
    case None
    then show ?thesis
      by (simp add: x scanned_Cons stops_scan_def marker_measure_def Cons.IH)
  next
    case (Some mk)
    obtain m b num den where mk: "mk = (m, b, num, den)" by (cases mk)
    show ?thesis
      by (simp add: x Some mk scanned_Cons stops_scan_def marker_measure_def Cons.IH Let_def)
  qed
qed

text \<open>The tracked index is an index of the timeline, of an entry in the requested measure.\<close>

lemma tracked_index_in_measure:
  assumes "tracked_index measnum bt evs = Some i"
  shows "i < length evs \<and> marker_measure (snd (evs ! i)) = Some measnum"
proof -
  let ?sc = "scanned measnum bt evs"
  let ?hits = "filter (\<lambda>(i, t, e). marker_measure e = Some measnum) (enumerate 0 ?sc)"
  from assms have ne: "?hits \<noteq> []" and i: "i = fst (last ?hits)"
    by (auto simp: tracked_index_def Let_def split: if_splits)
  from ne have "last ?hits \<in> set ?hits" by (rule last_in_set)
  then have mem: "last ?hits \<in> set (enumerate 0 ?sc)"
    and m: "marker_measure (snd (snd (last ?hits))) = Some measnum"
    by (auto simp: case_prod_beta)
  from mem have lt: "i < length ?sc" and nth: "?sc ! i = snd (last ?hits)"
    using i by (auto simp: in_set_enumerate_eq)
  have "length ?sc \<le> length evs" by (simp add: scanned_def)
  moreover have "?sc ! i = evs ! i"
    using lt by (simp add: scanned_def)
  ultimately show ?thesis using lt nth m by simp
qed

section \<open>Seeking by measure and beat\<close>

text \<open>
  C6: \<open>seek_measure\<close> scans forward, stopping at the first bundle whose marker's
  measure exceeds the requested measure or whose marker is in that measure with a
  beat at or past the requested beat, and tracks the last visited index whose
  marker's measure equals the requested measure; that index is an index of the
  timeline, of an entry in the requested measure. If there is such an index it sets
  the position to it and returns true; otherwise it returns false and leaves the
  cursor as it is. In particular, when no marker of the timeline has the requested
  measure, it returns false and the cursor is unchanged.
\<close>

theorem seek_measure_tracked:
  "seek_measure p measnum bt =
     (case tracked_index measnum bt (events p) of
        Some i \<Rightarrow> Inr (True, p\<lparr>position := int i\<rparr>)
      | None \<Rightarrow> Inr (False, p))
   \<and> (\<forall>i. tracked_index measnum bt (events p) = Some i \<longrightarrow>
        i < length (events p) \<and> marker_measure (snd (events p ! i)) = Some measnum)
   \<and> ((\<forall>(t, e) \<in> set (events p). marker_measure e \<noteq> Some measnum) \<longrightarrow>
        seek_measure p measnum bt = Inr (False, p))"
proof (intro conjI)
  show "\<forall>i. tracked_index measnum bt (events p) = Some i \<longrightarrow>
        i < length (events p) \<and> marker_measure (snd (events p ! i)) = Some measnum"
    using tracked_index_in_measure by blast
  show first: "seek_measure p measnum bt =
     (case tracked_index measnum bt (events p) of
        Some i \<Rightarrow> Inr (True, p\<lparr>position := int i\<rparr>)
      | None \<Rightarrow> Inr (False, p))"
    by (simp add: seek_measure_def seek_measure_scan_hits tracked_index_def Let_def
        set_position_def)
  show "(\<forall>(t, e) \<in> set (events p). marker_measure e \<noteq> Some measnum) \<longrightarrow>
        seek_measure p measnum bt = Inr (False, p)"
  proof
    assume no: "\<forall>(t, e) \<in> set (events p). marker_measure e \<noteq> Some measnum"
    have "filter (\<lambda>(i, t, e). marker_measure e = Some measnum)
            (enumerate 0 (scanned measnum bt (events p))) = []"
    proof (rule filter_False, clarify)
      fix i t e
      assume "(i, t, e) \<in> set (enumerate 0 (scanned measnum bt (events p)))"
        and m: "marker_measure e = Some measnum"
      then have "(t, e) \<in> set (scanned measnum bt (events p))"
        by (metis in_set_zipE enumerate_eq_zip)
      then have "(t, e) \<in> set (events p)"
        using set_scanned by blast
      with no m show False by auto
    qed
    then have "tracked_index measnum bt (events p) = None"
      by (simp add: tracked_index_def)
    with first show "seek_measure p measnum bt = Inr (False, p)" by simp
  qed
qed

theorem seek_measure_tracked_witness:
  "seek_measure (ex_beat_player 0) 1 2 = Inr (True, ex_beat_player 2)
   \<and> seek_measure (ex_beat_player 0) 1 3 = Inr (True, ex_beat_player 2)
   \<and> list_all (\<lambda>(t, e). marker_measure e \<noteq> Some 5) (events (ex_beat_player 3))
   \<and> seek_measure (ex_beat_player 3) 5 1 = Inr (False, ex_beat_player 3)"
proof -
  have t12: "tracked_index 1 2 (events (ex_beat_player 0)) = Some 2"
    by (simp add: tracked_index_def scanned_def stops_scan_def marker_measure_def
        ex_beat_player_def ex_beat_events_def)
  have t13: "tracked_index 1 3 (events (ex_beat_player 0)) = Some 2"
    by (simp add: tracked_index_def scanned_def stops_scan_def marker_measure_def
        ex_beat_player_def ex_beat_events_def)
  have no: "\<forall>(t, e) \<in> set (events (ex_beat_player 3)). marker_measure e \<noteq> Some 5"
    by (simp add: marker_measure_def ex_beat_player_def ex_beat_events_def)
  have a: "seek_measure (ex_beat_player 0) 1 2 = Inr (True, ex_beat_player 2)"
    using seek_measure_tracked [of "ex_beat_player 0" 1 2] t12
    by (simp add: ex_beat_player_def)
  have b: "seek_measure (ex_beat_player 0) 1 3 = Inr (True, ex_beat_player 2)"
    using seek_measure_tracked [of "ex_beat_player 0" 1 3] t13
    by (simp add: ex_beat_player_def)
  have c: "seek_measure (ex_beat_player 3) 5 1 = Inr (False, ex_beat_player 3)"
    using seek_measure_tracked [of "ex_beat_player 3" 5 1] no by blast
  have l: "list_all (\<lambda>(t, e). marker_measure e \<noteq> Some 5) (events (ex_beat_player 3))"
    using no by (simp add: list_all_iff)
  from a b c l show ?thesis by simp
qed

section \<open>Dispatching the current event\<close>

text \<open>
  \<open>handle_event\<close> raises \<^verbatim>\<open>NameError\<close> for every bundle, and so does \<open>next_event\<close>
  for every cursor with a position inside the timeline.
\<close>

lemma handle_event_raises: "handle_event truthy t event = Inl NameError"
  by (simp add: handle_event_def lookup_name_def handle_event_scope_def)

lemma next_event_active_raises:
  assumes "0 \<le> position p" and "position p < int (length (events p))"
  shows "next_event truthy p = Inl NameError"
proof -
  have "events p \<noteq> []" using assms by auto
  moreover have "py_index (events p) (position p) = Inr (events p ! nat (position p))"
    using assms by (simp add: py_index_def)
  ultimately show ?thesis
    using assms(2) by (simp add: next_event_def handle_event_raises split: prod.splits)
qed

text \<open>
  C2 (the code fails where the claim says it dispatches): for the cursor at position
  0 of the example timeline, whose first bundle carries a payload, a time tick and a
  beat marker, \<open>next_event\<close> raises \<^verbatim>\<open>NameError\<close>, as \<open>handle_event\<close> does for
  that bundle, and no hook is called.
\<close>

theorem next_event_name_error:
  "next_event ex_truthy (ex_player 0) = Inl NameError
   \<and> handle_event ex_truthy 0 \<lparr>midi = Some ''A'', time = True, beat = Some (1, 1, 4, 4)\<rparr>
       = Inl NameError"
  by (simp add: next_event_def ex_player_def ex_events_def py_index_def handle_event_def
      lookup_name_def handle_event_scope_def)

section \<open>The dictionary of the builder\<close>

lemma dict_modify_keys:
  "set (map fst (dict_modify d k f)) = insert k (set (map fst d))"
  by (induction d k f rule: dict_modify.induct) auto

lemma dict_modify_distinct:
  "distinct (map fst d) \<Longrightarrow> distinct (map fst (dict_modify d k f))"
  by (induction d k f rule: dict_modify.induct) (auto simp: dict_modify_keys simp del: set_map)

lemma dict_get_modify:
  "dict_get (dict_modify d k f) k' = (if k' = k then f (dict_get d k) else dict_get d k')"
  by (induction d k f rule: dict_modify.induct) (auto simp: dict_get_def)

lemma add_music_keys:
  "set (map fst (add_music ms d)) = fst ` set ms \<union> set (map fst d)"
  unfolding add_music_def
  by (induction ms arbitrary: d) (auto simp: dict_modify_keys simp del: set_map)

lemma add_times_keys:
  "set (map fst (add_times ts d)) = set ts \<union> set (map fst d)"
  unfolding add_times_def
  by (induction ts arbitrary: d) (auto simp: dict_modify_keys simp del: set_map)

lemma add_beats_keys:
  "set (map fst (add_beats bs d)) = fst ` set bs \<union> set (map fst d)"
  unfolding add_beats_def
  by (induction bs arbitrary: d) (auto simp: dict_modify_keys simp del: set_map)

lemma add_music_distinct:
  "distinct (map fst d) \<Longrightarrow> distinct (map fst (add_music ms d))"
  unfolding add_music_def
  by (induction ms arbitrary: d) (auto simp: dict_modify_distinct)

lemma add_times_distinct:
  "distinct (map fst d) \<Longrightarrow> distinct (map fst (add_times ts d))"
  unfolding add_times_def
  by (induction ts arbitrary: d) (auto simp: dict_modify_distinct)

lemma add_beats_distinct:
  "distinct (map fst d) \<Longrightarrow> distinct (map fst (add_beats bs d))"
  unfolding add_beats_def
  by (induction bs arbitrary: d) (auto simp: dict_modify_distinct)

text \<open>Each loop writes one attribute and leaves the other two as they are.\<close>

lemma add_music_get:
  "dict_get (add_music ms d) t =
     (case map_of (rev ms) t of
        Some m \<Rightarrow> (dict_get d t)\<lparr>midi := Some m\<rparr>
      | None \<Rightarrow> dict_get d t)"
  unfolding add_music_def
proof (induction ms arbitrary: d)
  case Nil
  show ?case by simp
next
  case (Cons x ms)
  obtain k m where x: "x = (k, m)" by (cases x)
  show ?case
    by (simp add: x Cons.IH dict_get_modify map_add_def split: option.splits)
qed

lemma add_times_get:
  "dict_get (add_times ts d) t =
     (if t \<in> set ts then (dict_get d t)\<lparr>time := True\<rparr> else dict_get d t)"
  unfolding add_times_def
  by (induction ts arbitrary: d) (auto simp: dict_get_modify)

lemma add_beats_Nil: "add_beats [] d = d"
  by (simp add: add_beats_def)

lemma add_beats_Cons:
  "add_beats ((k, a, b, c, e) # bs) d =
     add_beats bs (dict_modify d k (\<lambda>ev. ev\<lparr>beat := Some (a, b, c, e)\<rparr>))"
  by (simp add: add_beats_def)

lemma add_beats_get:
  "dict_get (add_beats bs d) t =
     (case map_of (rev (beat_markers bs)) t of
        Some m \<Rightarrow> (dict_get d t)\<lparr>beat := Some m\<rparr>
      | None \<Rightarrow> dict_get d t)"
proof (induction bs arbitrary: d)
  case Nil
  show ?case by (simp add: beat_markers_def add_beats_Nil)
next
  case (Cons x bs)
  obtain k a b c e where x: "x = (k, a, b, c, e)" by (cases x)
  have bm: "beat_markers ((k, a, b, c, e) # bs) = (k, (a, b, c, e)) # beat_markers bs"
    by (simp add: beat_markers_def)
  show ?case
    by (simp add: x bm add_beats_Cons Cons.IH dict_get_modify map_add_def split: option.splits)
qed

section \<open>The values of range\<close>

lemma ceil_div_less_iff:
  fixes s a m :: int
  assumes "0 < s"
  shows "a < (m + s - 1) div s \<longleftrightarrow> a * s < m"
proof
  assume "a < (m + s - 1) div s"
  then have "a + 1 \<le> (m + s - 1) div s" by simp
  then have "(a + 1) * s \<le> ((m + s - 1) div s) * s"
    using assms by (intro mult_right_mono) simp_all
  also have "\<dots> \<le> m + s - 1"
    using pos_mod_sign [OF assms, of "m + s - 1"]
    by (simp add: minus_mod_eq_div_mult [symmetric])
  finally show "a * s < m" by (simp add: algebra_simps)
next
  assume "a * s < m"
  then have "a * s + s \<le> m + s - 1" by simp
  then have "(a * s + s) div s \<le> (m + s - 1) div s"
    using assms by (intro zdiv_mono1) simp_all
  moreover have "(a * s + s) div s = a + 1"
    using assms by simp
  ultimately show "a < (m + s - 1) div s" by simp
qed

lemma py_range_pos:
  assumes "0 < step"
  shows "\<exists>ts. py_range start stop step = Inr ts
     \<and> (\<forall>x. x \<in> set ts \<longleftrightarrow> start \<le> x \<and> x < stop \<and> step dvd (x - start))"
proof -
  let ?n = "nat ((stop - start + step - 1) div step)"
  let ?ts = "map (\<lambda>k. start + int k * step) [0..<?n]"
  have r: "py_range start stop step = Inr ?ts"
    using assms by (simp add: py_range_def)
  have k: "\<And>k. k < ?n \<longleftrightarrow> int k * step < stop - start"
    using ceil_div_less_iff [OF assms, of _ "stop - start"] by (simp add: zless_nat_eq_int_zless)
  have "\<And>x. x \<in> set ?ts \<longleftrightarrow> start \<le> x \<and> x < stop \<and> step dvd (x - start)"
  proof
    fix x assume "x \<in> set ?ts"
    then obtain j where j: "j < ?n" "x = start + int j * step" by auto
    then have "int j * step < stop - start" using k by simp
    moreover have "0 \<le> int j * step" using assms by simp
    ultimately show "start \<le> x \<and> x < stop \<and> step dvd (x - start)"
      using j(2) by simp
  next
    fix x assume h: "start \<le> x \<and> x < stop \<and> step dvd (x - start)"
    then obtain q where q: "x - start = step * q" by (auto simp: dvd_def)
    have "0 \<le> step * q" using h q by simp
    then have q0: "0 \<le> q" using assms by (simp add: zero_le_mult_iff)
    have "int (nat q) * step < stop - start" using q q0 h by (simp add: mult.commute)
    then have "nat q < ?n" using k by simp
    moreover have "x = start + int (nat q) * step" using q q0 by (simp add: mult.commute)
    ultimately show "x \<in> set ?ts" by (auto simp: image_iff intro!: bexI [of _ "nat q"])
  qed
  with r show ?thesis by blast
qed

lemma py_range_neg:
  assumes "step < 0"
  shows "\<exists>ts. py_range start stop step = Inr ts
     \<and> (\<forall>x. x \<in> set ts \<longleftrightarrow> stop < x \<and> x \<le> start \<and> step dvd (x - start))"
proof -
  let ?n = "nat ((start - stop - step - 1) div (- step))"
  let ?ts = "map (\<lambda>k. start + int k * step) [0..<?n]"
  have r: "py_range start stop step = Inr ?ts"
    using assms by (simp add: py_range_def)
  have pos: "0 < - step" using assms by simp
  have k: "\<And>k. k < ?n \<longleftrightarrow> int k * (- step) < start - stop"
    using ceil_div_less_iff [OF pos, of _ "start - stop"] by (simp add: zless_nat_eq_int_zless)
  have "\<And>x. x \<in> set ?ts \<longleftrightarrow> stop < x \<and> x \<le> start \<and> step dvd (x - start)"
  proof
    fix x assume "x \<in> set ?ts"
    then obtain j where j: "j < ?n" "x = start + int j * step" by auto
    then have "int j * (- step) < start - stop" using k by simp
    moreover have "0 \<le> int j * (- step)" using pos by (intro mult_nonneg_nonneg) simp_all
    ultimately show "stop < x \<and> x \<le> start \<and> step dvd (x - start)"
      using j(2) by simp
  next
    fix x assume h: "stop < x \<and> x \<le> start \<and> step dvd (x - start)"
    then obtain q where q: "x - start = step * q" by (auto simp: dvd_def)
    have "step * q \<le> 0" using h q by simp
    then have q0: "0 \<le> q" using assms by (auto simp: mult_le_0_iff)
    have "int (nat q) * (- step) < start - stop" using q q0 h by (simp add: mult.commute)
    then have "nat q < ?n" using k by simp
    moreover have "x = start + int (nat q) * step" using q q0 by (simp add: mult.commute)
    ultimately show "x \<in> set ?ts" by (auto simp: image_iff intro!: bexI [of _ "nat q"])
  qed
  with r show ?thesis by blast
qed

section \<open>The event list that is built\<close>

text \<open>
  The result of \<open>make_event_list\<close> in terms of the final dictionary: its keys are
  the timestamps of the music, of the time events and (when asked for) of the beats,
  and the value under a key holds the last payload, the time flag and the last beat
  marker of that timestamp.
\<close>

lemma tick_list:
  "tm = None \<or> tm = Some 0 \<or>
   (\<exists>step ts. tm = Some step \<and> step \<noteq> 0 \<and> py_range 0 (len + 1) step = Inr ts
      \<and> (\<forall>x. x \<in> set ts \<longleftrightarrow> tick_time len tm x))"
proof (cases tm)
  case None
  then show ?thesis by simp
next
  case (Some step)
  consider "step = 0" | "0 < step" | "step < 0" by linarith
  then show ?thesis
  proof cases
    case 1
    with Some show ?thesis by simp
  next
    case 2
    obtain ts where "py_range 0 (len + 1) step = Inr ts"
      "\<forall>x. x \<in> set ts \<longleftrightarrow> 0 \<le> x \<and> x < len + 1 \<and> step dvd (x - 0)"
      using py_range_pos [OF 2, of 0 "len + 1"] by blast
    with Some 2 show ?thesis by (auto simp: tick_time_def)
  next
    case 3
    obtain ts where "py_range 0 (len + 1) step = Inr ts"
      "\<forall>x. x \<in> set ts \<longleftrightarrow> len + 1 < x \<and> x \<le> 0 \<and> step dvd (x - 0)"
      using py_range_neg [OF 3, of 0 "len + 1"] by blast
    with Some 3 show ?thesis by (auto simp: tick_time_def)
  qed
qed

lemma dict_get_Nil: "dict_get [] t = Event"
  by (simp add: dict_get_def)

lemma make_event_list_dict:
  "\<exists>d. make_event_list sg tm bt = Inr (map (\<lambda>t. (t, dict_get d t)) (sort (map fst d)))
     \<and> distinct (map fst d)
     \<and> (\<forall>t. t \<in> set (map fst d) \<longleftrightarrow>
            t \<in> fst ` set (music sg) \<or> tick_time (song_length sg) tm t
            \<or> (bt \<and> t \<in> fst ` set (beats sg)))
     \<and> (\<forall>t. dict_get d t =
            \<lparr>midi = map_of (rev (music sg)) t,
             time = tick_time (song_length sg) tm t,
             beat = (if bt then map_of (rev (beat_markers (beats sg))) t else None)\<rparr>)"
proof -
  define d1 :: "(int \<times> 'a event) list" where "d1 = add_music (music sg) []"
  have d1: "distinct (map fst d1)" "set (map fst d1) = fst ` set (music sg)"
    "\<And>t. dict_get d1 t = \<lparr>midi = map_of (rev (music sg)) t, time = False, beat = None\<rparr>"
    unfolding d1_def
    by (simp_all add: add_music_distinct add_music_keys add_music_get dict_get_Nil Event_def
        split: option.splits del: set_map)
  obtain d2 :: "(int \<times> 'a event) list" where d2:
    "(case tm of None \<Rightarrow> Inr d1
      | Some step \<Rightarrow>
          if step \<noteq> 0 then
            (case py_range 0 (song_length sg + 1) step of
               Inl err \<Rightarrow> Inl err
             | Inr ts \<Rightarrow> Inr (add_times ts d1))
          else Inr d1) = (Inr d2 :: error + (int \<times> 'a event) list)"
    "distinct (map fst d2)"
    "\<And>t. t \<in> set (map fst d2) \<longleftrightarrow> t \<in> fst ` set (music sg) \<or> tick_time (song_length sg) tm t"
    "\<And>t. dict_get d2 t = \<lparr>midi = map_of (rev (music sg)) t,
        time = tick_time (song_length sg) tm t, beat = None\<rparr>"
  proof -
    consider "tm = None \<or> tm = Some 0"
      | step ts where "tm = Some step" "step \<noteq> 0" "py_range 0 (song_length sg + 1) step = Inr ts"
        "\<forall>x. x \<in> set ts \<longleftrightarrow> tick_time (song_length sg) tm x"
      using tick_list [of tm "song_length sg"] by blast
    then show ?thesis
    proof cases
      case 1
      then have no: "\<And>t. \<not> tick_time (song_length sg) tm t"
        by (auto simp: tick_time_def)
      show ?thesis
        by (rule that [of d1]) (use 1 d1 no in \<open>auto simp del: set_map\<close>)
    next
      case 2
      show ?thesis
        by (rule that [of "add_times ts d1"])
          (use 2 d1 in \<open>auto simp: add_times_distinct add_times_keys add_times_get simp del: set_map\<close>)
    qed
  qed
  define d3 where "d3 = (if bt then add_beats (beats sg) d2 else d2)"
  have d3: "distinct (map fst d3)"
    "\<And>t. t \<in> set (map fst d3) \<longleftrightarrow>
        t \<in> fst ` set (music sg) \<or> tick_time (song_length sg) tm t \<or> (bt \<and> t \<in> fst ` set (beats sg))"
    "\<And>t. dict_get d3 t = \<lparr>midi = map_of (rev (music sg)) t,
        time = tick_time (song_length sg) tm t,
        beat = (if bt then map_of (rev (beat_markers (beats sg))) t else None)\<rparr>"
    unfolding d3_def using d2(2,3,4)
    by (auto simp: add_beats_distinct add_beats_keys add_beats_get split: option.splits
        simp del: set_map)
  have "make_event_list sg tm bt = Inr (map (\<lambda>t. (t, dict_get d3 t)) (sort (map fst d3)))"
    unfolding make_event_list_def Let_def d1_def [symmetric] d2(1) d3_def by simp
  with d3 show ?thesis by blast
qed

text \<open>The timeline read off the final dictionary.\<close>

lemma make_event_list_strictly_increasing_aux:
  "\<exists>evs. make_event_list sg tm bt = Inr evs
     \<and> strictly_increasing evs
     \<and> distinct (map fst evs)
     \<and> (\<forall>t. t \<in> fst ` set evs \<longleftrightarrow>
            t \<in> fst ` set (music sg) \<or> tick_time (song_length sg) tm t
            \<or> (bt \<and> t \<in> fst ` set (beats sg)))
     \<and> (\<forall>(t, e) \<in> set evs.
            e = \<lparr>midi = map_of (rev (music sg)) t,
                 time = tick_time (song_length sg) tm t,
                 beat = (if bt then map_of (rev (beat_markers (beats sg))) t else None)\<rparr>)"
proof -
  obtain d where d:
    "make_event_list sg tm bt = Inr (map (\<lambda>t. (t, dict_get d t)) (sort (map fst d)))"
    "distinct (map fst d)"
    "\<forall>t. t \<in> set (map fst d) \<longleftrightarrow>
        t \<in> fst ` set (music sg) \<or> tick_time (song_length sg) tm t \<or> (bt \<and> t \<in> fst ` set (beats sg))"
    "\<forall>t. dict_get d t = \<lparr>midi = map_of (rev (music sg)) t,
        time = tick_time (song_length sg) tm t,
        beat = (if bt then map_of (rev (beat_markers (beats sg))) t else None)\<rparr>"
    using make_event_list_dict [of sg tm bt] by blast
  let ?evs = "map (\<lambda>t. (t, dict_get d t)) (sort (map fst d))"
  have keys: "map fst ?evs = sort (map fst d)"
    by (simp add: comp_def)
  have s: "strictly_increasing ?evs"
    unfolding strictly_increasing_def keys using d(2) by (simp add: strict_sorted_iff)
  have dis: "distinct (map fst ?evs)"
    unfolding keys using d(2) by simp
  have k: "\<forall>t. t \<in> fst ` set ?evs \<longleftrightarrow>
        t \<in> fst ` set (music sg) \<or> tick_time (song_length sg) tm t \<or> (bt \<and> t \<in> fst ` set (beats sg))"
  proof -
    have "fst ` set ?evs = set (map fst d)"
      using keys by (metis set_map set_sort)
    with d(3) show ?thesis by simp
  qed
  have c: "\<forall>(t, e) \<in> set ?evs.
            e = \<lparr>midi = map_of (rev (music sg)) t,
                 time = tick_time (song_length sg) tm t,
                 beat = (if bt then map_of (rev (beat_markers (beats sg))) t else None)\<rparr>"
    using d(4) by auto
  from d(1) s dis k c show ?thesis by blast
qed

section \<open>Ordering of the event list\<close>

text \<open>
  C8: for every song, interval and choice of beats, \<open>make_event_list\<close> returns a
  timeline that is strictly increasing by timestamp, so no two entries share a
  timestamp. Every timestamp a source contributes to has its one entry, and that
  entry holds all the contributions: the last payload of the music at that
  timestamp, the time flag, and (when beats are asked for) the last beat marker.
\<close>

theorem make_event_list_strictly_increasing:
  "\<exists>evs. make_event_list sg tm bt = Inr evs
     \<and> strictly_increasing evs
     \<and> distinct (map fst evs)
     \<and> (\<forall>t. t \<in> fst ` set evs \<longleftrightarrow>
            t \<in> fst ` set (music sg) \<or> tick_time (song_length sg) tm t
            \<or> (bt \<and> t \<in> fst ` set (beats sg)))
     \<and> (\<forall>(t, e) \<in> set evs.
            e = \<lparr>midi = map_of (rev (music sg)) t,
                 time = tick_time (song_length sg) tm t,
                 beat = (if bt then map_of (rev (beat_markers (beats sg))) t else None)\<rparr>)"
  by (rule make_event_list_strictly_increasing_aux)

theorem make_event_list_strictly_increasing_witness:
  "make_event_list ex_song (Some 50) True =
     Inr [(0, \<lparr>midi = Some ''A'', time = True, beat = Some (1, 1, 4, 4)\<rparr>),
          (50, \<lparr>midi = None, time = True, beat = None\<rparr>),
          (100, \<lparr>midi = Some ''B'', time = True, beat = None\<rparr>)]
   \<and> strictly_increasing
        [(0, \<lparr>midi = Some ''A'', time = True, beat = Some (1, 1, 4, 4)\<rparr>),
         (50, \<lparr>midi = None :: string option, time = True, beat = None\<rparr>),
         (100, \<lparr>midi = Some ''B'', time = True, beat = None\<rparr>)]"
proof -
  have e: "make_event_list ex_song (Some 50) True =
     Inr [(0, \<lparr>midi = Some ''A'', time = True, beat = Some (1, 1, 4, 4)\<rparr>),
          (50, \<lparr>midi = None, time = True, beat = None\<rparr>),
          (100, \<lparr>midi = Some ''B'', time = True, beat = None\<rparr>)]"
    by (simp add: make_event_list_def ex_song_def add_music_def add_times_def add_beats_def
        py_range_def dict_get_def Event_def upt_conv_Cons Let_def)
  show ?thesis
    using e make_event_list_strictly_increasing [of ex_song "Some 50" True]
    by auto
qed

section \<open>Time events of the event list\<close>

lemma has_tick_at_iff:
  "has_tick_at evs t \<longleftrightarrow> (\<exists>e. (t, e) \<in> set evs \<and> time e)"
  by (auto simp: has_tick_at_def list_ex_iff)

text \<open>
  C3 as stated fails: for the example song, of length 100, and the interval 30 the
  time events are at 0, 30, 60 and 90; the entry at 100 comes from the music alone
  and its time flag is not set.
\<close>

theorem make_event_list_tick_counterexample:
  "make_event_list ex_song (Some 30) True = Inr ex_events_30
   \<and> song_length ex_song = 100
   \<and> \<not> has_tick_at ex_events_30 100"
  by (simp add: make_event_list_def ex_song_def add_music_def add_times_def add_beats_def
      py_range_def dict_get_def Event_def has_tick_at_def ex_events_30_def upt_conv_Cons Let_def)

text \<open>
  C3, amended: for a song whose length is not negative and a positive interval,
  the timeline has an entry with the time flag set at timestamp 0, and has one at
  the length of the song exactly when the length is a multiple of the interval: the
  entries with the time flag are those at the multiples of the interval from 0 up to
  the length, whether or not the music has an event there.
\<close>

theorem make_event_list_time_ticks:
  assumes "0 < step" and "0 \<le> song_length sg"
  shows "\<exists>evs. make_event_list sg (Some step) bt = Inr evs
     \<and> has_tick_at evs 0
     \<and> (has_tick_at evs (song_length sg) \<longleftrightarrow> step dvd song_length sg)
     \<and> (\<forall>t. has_tick_at evs t \<longleftrightarrow> 0 \<le> t \<and> t \<le> song_length sg \<and> step dvd t)"
proof -
  obtain evs where evs: "make_event_list sg (Some step) bt = Inr evs"
    "\<forall>t. t \<in> fst ` set evs \<longleftrightarrow>
        t \<in> fst ` set (music sg) \<or> tick_time (song_length sg) (Some step) t
        \<or> (bt \<and> t \<in> fst ` set (beats sg))"
    "\<forall>(t, e) \<in> set evs.
        e = \<lparr>midi = map_of (rev (music sg)) t,
             time = tick_time (song_length sg) (Some step) t,
             beat = (if bt then map_of (rev (beat_markers (beats sg))) t else None)\<rparr>"
    using make_event_list_strictly_increasing_aux [of sg "Some step" bt] by blast
  have tick: "\<And>t. has_tick_at evs t \<longleftrightarrow> tick_time (song_length sg) (Some step) t"
  proof
    fix t assume "has_tick_at evs t"
    then obtain e where "(t, e) \<in> set evs" "time e" by (auto simp: has_tick_at_iff)
    with evs(3) show "tick_time (song_length sg) (Some step) t" by auto
  next
    fix t assume t: "tick_time (song_length sg) (Some step) t"
    with evs(2) have "t \<in> fst ` set evs" by simp
    then obtain e where e: "(t, e) \<in> set evs" by auto
    with evs(3) t have "time e" by auto
    with e show "has_tick_at evs t" by (auto simp: has_tick_at_iff)
  qed
  have "\<And>t. has_tick_at evs t \<longleftrightarrow> 0 \<le> t \<and> t \<le> song_length sg \<and> step dvd t"
    using assms(1) by (auto simp: tick tick_time_def)
  with evs(1) assms(2) show ?thesis by auto
qed

theorem make_event_list_time_ticks_witness:
  "(0::int) < 30 \<and> 0 \<le> song_length ex_song
   \<and> make_event_list ex_song (Some 30) True = Inr ex_events_30
   \<and> has_tick_at ex_events_30 0 \<and> has_tick_at ex_events_30 90 \<and> \<not> has_tick_at ex_events_30 100"
proof -
  have a: "(0::int) < 30" by simp
  have b: "0 \<le> song_length ex_song" by (simp add: ex_song_def)
  have e: "make_event_list ex_song (Some 30) True = Inr ex_events_30"
    by (simp add: make_event_list_def ex_song_def add_music_def add_times_def add_beats_def
        py_range_def dict_get_def Event_def ex_events_30_def upt_conv_Cons Let_def)
  have "\<forall>t. has_tick_at ex_events_30 t \<longleftrightarrow> 0 \<le> t \<and> t \<le> song_length ex_song \<and> 30 dvd t"
    using make_event_list_time_ticks [OF a b, of True] e by simp
  then have "has_tick_at ex_events_30 0" "has_tick_at ex_events_30 90"
    "\<not> has_tick_at ex_events_30 100"
    by (simp_all add: ex_song_def)
  with a b e show ?thesis by simp
qed

end
